theory Spec2Isabelle
  imports Complex_Main
begin

section \<open>Python values and exceptions\<close>

text \<open>
  Strings are lists of 8-bit characters (code points below 256); FEN and UCI text is ASCII.
  Floats only ever take the values 0.0 and 1.0 here and are modelled as reals.
  Every exception the pipeline can raise is a constructor of \<open>error\<close>; a function that
  may raise returns \<open>error + 'a\<close> with \<open>Inl\<close> for the exception.
\<close>

datatype error =
    IndexError
  | BoardStringLength nat
  | KeyError char
  | InvalidFen
  | InvalidMoveError
  | IllegalMoveError
  | NoObjectsToConcatenate
  | ColumnKeyError string

text \<open>
  \<^item> \<open>IndexError\<close>: \<^verbatim>\<open>fen.split()[0]\<close> or \<^verbatim>\<open>move_string.split()[1]\<close> out of range.
  \<^item> \<open>BoardStringLength n\<close>: the \<^verbatim>\<open>ValueError\<close> of \<^verbatim>\<open>fen_to_array\<close>, carrying
    \<^verbatim>\<open>len(board_string)\<close> (the spec's InvalidBoardLength).
  \<^item> \<open>KeyError c\<close>: \<^verbatim>\<open>piece_dict[c]\<close> for a character that is no key (the spec's
    InvalidPieceSymbol).
  \<^item> \<open>InvalidFen\<close>, \<open>InvalidMoveError\<close>, \<open>IllegalMoveError\<close>: raised by the chess library.
  \<^item> \<open>NoObjectsToConcatenate\<close>: the \<^verbatim>\<open>ValueError\<close> of \<^verbatim>\<open>pd.concat\<close> on no frames.
  \<^item> \<open>ColumnKeyError\<close>: a column asked of \<^verbatim>\<open>to_csv\<close> that the frame does not have.
\<close>

subsection \<open>\<^verbatim>\<open>str.split()\<close> and \<^verbatim>\<open>str.split('/')\<close>\<close>

definition py_isspace :: "char \<Rightarrow> bool" where
  "py_isspace c \<longleftrightarrow>
     c \<in> set [CHR 0x09, CHR 0x0A, CHR 0x0B, CHR 0x0C, CHR 0x0D,
               CHR 0x1C, CHR 0x1D, CHR 0x1E, CHR 0x1F, CHR 0x20, CHR 0x85, CHR 0xA0]"

text \<open>
  \<^verbatim>\<open>s.split()\<close>: the maximal runs of non-whitespace characters, in order; \<open>cur\<close> is the
  run being read.
\<close>

fun split_acc :: "string \<Rightarrow> string \<Rightarrow> string list" where
  "split_acc [] cur = (if cur = [] then [] else [cur])"
| "split_acc (c # cs) cur =
     (if py_isspace c then (if cur = [] then split_acc cs [] else cur # split_acc cs [])
      else split_acc cs (cur @ [c]))"

definition split_ws :: "string \<Rightarrow> string list" where
  "split_ws s = split_acc s []"

text \<open>\<^verbatim>\<open>s.split(sep)\<close> for a one-character separator: never empty, \<^verbatim>\<open>''.split('/') == ['']\<close>.\<close>

fun split_sep :: "char \<Rightarrow> string \<Rightarrow> string list" where
  "split_sep sep [] = [[]]"
| "split_sep sep (c # cs) =
     (if c = sep then [] # split_sep sep cs
      else (case split_sep sep cs of [] \<Rightarrow> [[c]] | w # ws \<Rightarrow> (c # w) # ws))"

section \<open>The board encoder: \<^verbatim>\<open>fen_to_array\<close>\<close>

text \<open>
  \<^verbatim>\<open>addon = char if char not in '12345678' else '0' * int(char)\<close>
\<close>

definition addon :: "char \<Rightarrow> string" where
  "addon char = (if char \<notin> set ''12345678'' then [char]
                 else replicate (of_char char - of_char (CHR ''0'')) (CHR ''0''))"

text \<open>
  The two nested loops over \<^verbatim>\<open>fen.split()[0].split('/')\<close>, each step doing
  \<^verbatim>\<open>board_string += addon\<close>.
\<close>

definition board_string_of :: "string \<Rightarrow> string" where
  "board_string_of placement =
     fold (\<lambda>row board_string. fold (\<lambda>char board_string. board_string @ addon char) row board_string)
       (split_sep (CHR ''/'') placement) []"

definition piece_dict :: "char \<rightharpoonup> nat" where
  "piece_dict = map_of
     [(CHR ''0'', 0),
      (CHR ''P'', 1), (CHR ''N'', 2), (CHR ''B'', 3), (CHR ''R'', 4), (CHR ''Q'', 5), (CHR ''K'', 6),
      (CHR ''p'', 7), (CHR ''n'', 8), (CHR ''b'', 9), (CHR ''r'', 10), (CHR ''q'', 11), (CHR ''k'', 12)]"

text \<open>
  \<^verbatim>\<open>for _ in range(64): board_array[13 * _ + piece_dict[board_string[_]]] = 1\<close>.
  The loop runs only when \<^verbatim>\<open>len(board_string) == 64\<close>, so \<^verbatim>\<open>board_string[_]\<close> is in
  range; a missing key raises \<^verbatim>\<open>KeyError\<close> and ends the loop.
\<close>

fun set_squares :: "nat list \<Rightarrow> string \<Rightarrow> real list \<Rightarrow> error + real list" where
  "set_squares [] board_string board_array = Inr board_array"
| "set_squares (i # rest) board_string board_array =
     (case piece_dict (board_string ! i) of
        None \<Rightarrow> Inl (KeyError (board_string ! i))
      | Some k \<Rightarrow> set_squares rest board_string (board_array[13 * i + k := 1]))"

definition fen_to_array :: "string \<Rightarrow> error + real list" where
  "fen_to_array fen =
     (case split_ws fen of
        [] \<Rightarrow> Inl IndexError
      | placement # _ \<Rightarrow>
          (let board_string = board_string_of placement in
           if length board_string \<noteq> 64 then Inl (BoardStringLength (length board_string))
           else set_squares [0..<64] board_string (replicate 832 0)))"

section \<open>The rules engine\<close>

text \<open>
  The chess library is an external dependency; the pipeline uses six of its operations, and
  the model takes them as the fields of a record. \<open>'pos\<close> is the type of board objects,
  \<open>'mv\<close> the type of move objects, which the library compares by value
  (\<^verbatim>\<open>move == chess.Move.from_uci(target)\<close> is equality on \<open>'mv\<close>).
  \<^item> \<open>Board\<close>: \<^verbatim>\<open>chess.Board(fen)\<close>, which raises on a FEN it cannot parse;
  \<^item> \<open>legal_moves\<close>: the moves \<^verbatim>\<open>board.legal_moves\<close> yields, in its order;
  \<^item> \<open>uci\<close>: \<^verbatim>\<open>move.uci()\<close>;
  \<^item> \<open>push_uci\<close>: the board after \<^verbatim>\<open>board.push_uci(s)\<close>, which raises when \<open>s\<close>
    is not the notation of a legal move;
  \<^item> \<open>board_fen\<close>: \<^verbatim>\<open>board.fen()\<close>;
  \<^item> \<open>from_uci\<close>: \<^verbatim>\<open>chess.Move.from_uci(s)\<close>, which raises on malformed notation.
\<close>

record ('pos, 'mv) rules_engine =
  Board :: "string \<Rightarrow> error + 'pos"
  legal_moves :: "'pos \<Rightarrow> 'mv list"
  uci :: "'mv \<Rightarrow> string"
  push_uci :: "'pos \<Rightarrow> string \<Rightarrow> error + 'pos"
  board_fen :: "'pos \<Rightarrow> string"
  from_uci :: "string \<Rightarrow> error + 'mv"

section \<open>Rows and frames\<close>

text \<open>
  A row of a data frame is a record of its columns; a frame (or a chunk of one) is the list
  of its rows, in order. \<^verbatim>\<open>game_series\<close> is a row of the puzzle frame,
  \<^verbatim>\<open>fen_series\<close> a row of the cleaned frame.
\<close>

record fen_column =
  FEN :: string

record game_series = fen_column +
  Moves :: string

record fen_series = fen_column +
  target_move :: string

text \<open>
  \<^verbatim>\<open>df.apply(f, axis=1)\<close> and \<^verbatim>\<open>series.apply(f)\<close> on a frame with rows: \<open>f\<close> is
  called on each row in order, and the first exception ends the call.
\<close>

fun apply_rows :: "('a \<Rightarrow> error + 'b) \<Rightarrow> 'a list \<Rightarrow> error + 'b list" where
  "apply_rows f [] = Inr []"
| "apply_rows f (x # xs) =
     (case f x of
        Inl e \<Rightarrow> Inl e
      | Inr y \<Rightarrow> (case apply_rows f xs of Inl e \<Rightarrow> Inl e | Inr ys \<Rightarrow> Inr (y # ys)))"

section \<open>The puzzle advancer: \<^verbatim>\<open>single_move\<close> and \<^verbatim>\<open>puzzle_cleaning\<close>\<close>

definition single_move :: "('pos, 'mv) rules_engine \<Rightarrow> game_series \<Rightarrow> error + string" where
  "single_move E game_series =
     (case Board E (FEN game_series) of
        Inl e \<Rightarrow> Inl e
      | Inr board \<Rightarrow>
          (case split_ws (Moves game_series) of
             [] \<Rightarrow> Inl IndexError
           | first_move # _ \<Rightarrow>
               (case push_uci E board first_move of
                  Inl e \<Rightarrow> Inl e
                | Inr pushed \<Rightarrow> Inr (board_fen E pushed))))"

text \<open>\<^verbatim>\<open>lambda move_string: move_string.split()[1]\<close>\<close>

definition second_move :: "string \<Rightarrow> error + string" where
  "second_move move_string =
     (case split_ws move_string of _ # target # _ \<Rightarrow> Inr target | _ \<Rightarrow> Inl IndexError)"

text \<open>
  \<^verbatim>\<open>puzzle_cleaning\<close> fills the column \<^verbatim>\<open>FEN\<close> for every row first and the column
  \<^verbatim>\<open>target_move\<close> after it. It is modelled on frames with at least one row (what
  \<^verbatim>\<open>apply\<close> returns for a frame without rows depends on the pandas version).
\<close>

fun puzzle_cleaning ::
  "('pos, 'mv) rules_engine \<Rightarrow> game_series list \<Rightarrow> error + fen_series list" where
  "puzzle_cleaning E (r # rs) =
     (case apply_rows (single_move E) (r # rs) of
        Inl e \<Rightarrow> Inl e
      | Inr fens \<Rightarrow>
          (case apply_rows (\<lambda>row. second_move (Moves row)) (r # rs) of
             Inl e \<Rightarrow> Inl e
           | Inr targets \<Rightarrow>
               Inr (map (\<lambda>(f, t). \<lparr>FEN = f, target_move = t\<rparr>) (zip fens targets))))"

section \<open>The move expander: \<^verbatim>\<open>possible_moves\<close>\<close>

type_synonym candidate_row = "real list \<times> real"

text \<open>
  The loop \<^verbatim>\<open>for move in board.legal_moves\<close>. Each step pushes the move on \<open>board\<close>
  and pops it again at its end, so every step starts from the same \<open>board\<close>; the target
  is parsed anew in each step, before the candidate position is encoded.
\<close>

fun expand_moves ::
  "('pos, 'mv) rules_engine \<Rightarrow> 'pos \<Rightarrow> string \<Rightarrow> 'mv list \<Rightarrow> candidate_row list
     \<Rightarrow> error + candidate_row list" where
  "expand_moves E board target [] array_list = Inr array_list"
| "expand_moves E board target (move # rest) array_list =
     (case push_uci E board (uci E move) of
        Inl e \<Rightarrow> Inl e
      | Inr pushed \<Rightarrow>
          (let candidate_fen = board_fen E pushed in
           case from_uci E target of
             Inl e \<Rightarrow> Inl e
           | Inr parsed \<Rightarrow>
               (let target_val = (if move = parsed then 1 else 0) in
                case fen_to_array candidate_fen of
                  Inl e \<Rightarrow> Inl e
                | Inr position \<Rightarrow>
                    expand_moves E board target rest (array_list @ [(position, target_val)]))))"

definition possible_moves ::
  "('pos, 'mv) rules_engine \<Rightarrow> fen_series \<Rightarrow> error + candidate_row list" where
  "possible_moves E fen_series =
     (let start_fen = FEN fen_series; target = target_move fen_series in
      case Board E start_fen of
        Inl e \<Rightarrow> Inl e
      | Inr board \<Rightarrow> expand_moves E board target (legal_moves E board) [])"

section \<open>The streaming converter: \<^verbatim>\<open>make_converted_file\<close>\<close>

text \<open>
  The output file is the list of its CSV records: a header record of column names, or a data
  record of cells. \<^verbatim>\<open>to_csv\<close> with mode \<^verbatim>\<open>'w'\<close> replaces the file, any other mode used
  here (\<^verbatim>\<open>'a'\<close>) appends to it; a column that the frame does not have is a
  \<^verbatim>\<open>KeyError\<close>, raised before anything is written.
\<close>

datatype cell = Array "real list" | Float real

datatype csv_record = Header "string list" | Data "cell list"

definition to_csv ::
  "csv_record list \<Rightarrow> candidate_row list \<Rightarrow> string list \<Rightarrow> bool \<Rightarrow> string
     \<Rightarrow> error + csv_record list" where
  "to_csv outfile df columns header mode =
     (case filter (\<lambda>c. c \<noteq> ''Position'' \<and> c \<noteq> ''Target'') columns of
        missing # _ \<Rightarrow> Inl (ColumnKeyError missing)
      | [] \<Rightarrow>
          Inr ((if mode = ''w'' then [] else outfile)
               @ (if header then [Header columns] else [])
               @ map (\<lambda>row. Data (map (\<lambda>c. if c = ''Position'' then Array (fst row)
                                              else Float (snd row)) columns)) df))"

text \<open>
  \<^verbatim>\<open>pd.read_csv(infile, chunksize=n)\<close> over the rows of the input: consecutive chunks of
  \<open>n\<close> rows, the last one shorter; an input without rows gives one chunk without rows.
\<close>

definition read_csv_chunks :: "nat \<Rightarrow> 'a list \<Rightarrow> 'a list list" where
  "read_csv_chunks chunksize rows =
     (if rows = [] then [[]]
      else map (\<lambda>i. take chunksize (drop (chunksize * i) rows))
             [0..<(length rows + chunksize - 1) div chunksize])"

text \<open>\<^verbatim>\<open>pd.concat(frames, ignore_index=True)\<close>: raises when there is no frame.\<close>

definition pd_concat :: "'a list list \<Rightarrow> error + 'a list" where
  "pd_concat frames = (if frames = [] then Inl NoObjectsToConcatenate else Inr (concat frames))"

text \<open>
  The loop over \<^verbatim>\<open>enumerate(chunks)\<close>. The state is the content of the output file; an
  exception ends the run and leaves the file as the chunks before it wrote it.
\<close>

fun convert_chunks ::
  "('pos, 'mv) rules_engine \<Rightarrow> string list \<Rightarrow> (nat \<times> fen_series list) list
     \<Rightarrow> csv_record list \<Rightarrow> csv_record list \<times> error option" where
  "convert_chunks E out_cols [] outfile = (outfile, None)"
| "convert_chunks E out_cols ((i, chunk) # rest) outfile =
     (let header = (i = 0); mode = (if i = 0 then ''w'' else ''a'') in
      case apply_rows (possible_moves E) chunk of
        Inl e \<Rightarrow> (outfile, Some e)
      | Inr chunk_df \<Rightarrow>
          (case pd_concat chunk_df of
             Inl e \<Rightarrow> (outfile, Some e)
           | Inr restacked_df \<Rightarrow>
               (case to_csv outfile restacked_df out_cols header mode of
                  Inl e \<Rightarrow> (outfile, Some e)
                | Inr written \<Rightarrow> convert_chunks E out_cols rest written)))"

definition make_converted_file ::
  "('pos, 'mv) rules_engine \<Rightarrow> fen_series list \<Rightarrow> csv_record list \<Rightarrow> string list option
     \<Rightarrow> csv_record list \<times> error option" where
  "make_converted_file E infile outfile out_cols =
     convert_chunks E
       (case out_cols of None \<Rightarrow> [''Position'', ''Target''] | Some cols \<Rightarrow> cols)
       (enumerate 0 (read_csv_chunks 100 infile)) outfile"

section \<open>What the pipeline relies on from the rules engine\<close>

text \<open>
  The FEN of a board is well formed for the encoder when its placement field expands to 64
  characters, each a piece letter or the empty marker.
\<close>

definition well_formed_placement :: "string \<Rightarrow> bool" where
  "well_formed_placement s =
     (case split_ws s of
        [] \<Rightarrow> False
      | placement # _ \<Rightarrow>
          length (board_string_of placement) = 64
          \<and> set (board_string_of placement) \<subseteq> set ''0PNBRQKpnbrqk'')"

text \<open>
  \<open>replies_ok E board\<close>: the engine lists no legal move of \<open>board\<close> twice, accepts the
  notation of each of them, and the board it reaches has a well-formed FEN.
\<close>

definition replies_ok :: "('pos, 'mv) rules_engine \<Rightarrow> 'pos \<Rightarrow> bool" where
  "replies_ok E board =
     (distinct (legal_moves E board)
      \<and> list_all (\<lambda>move. case push_uci E board (uci E move) of
                            Inl e \<Rightarrow> False
                          | Inr pushed \<Rightarrow> well_formed_placement (board_fen E pushed))
          (legal_moves E board))"

text \<open>The number of legal moves from the position of a cleaned row (0 when it has no board).\<close>

definition legal_move_count :: "('pos, 'mv) rules_engine \<Rightarrow> fen_series \<Rightarrow> nat" where
  "legal_move_count E fen_series =
     (case Board E (FEN fen_series) of Inl e \<Rightarrow> 0 | Inr board \<Rightarrow> length (legal_moves E board))"

section \<open>A tabulated fragment of a rules engine\<close>

text \<open>
  The theorems below hold for every rules engine. To instantiate them at concrete inputs,
  \<open>example_engine\<close> tabulates five positions with their legal moves, in the library's
  order, and the FEN after each move: the starting position, the position after 1. e4, an
  endgame position with three legal moves, a stalemate and a checkmate. Its boards are FEN
  strings, its moves are pairs of squares (a1 = 0, ..., h8 = 63) with an optional promotion
  piece, as the library's move objects are.
\<close>

datatype move = Move (from_square: nat) (to_square: nat) (promotion: "nat option")

definition index_of :: "'a \<Rightarrow> 'a list \<Rightarrow> nat option" where
  "index_of x xs = (if x \<in> set xs then Some (length (takeWhile (\<lambda>y. y \<noteq> x) xs)) else None)"

definition parse_square :: "char \<Rightarrow> char \<Rightarrow> nat option" where
  "parse_square file rank =
     (case (index_of file ''abcdefgh'', index_of rank ''12345678'') of
        (Some f, Some r) \<Rightarrow> Some (8 * r + f)
      | _ \<Rightarrow> None)"

definition square_name :: "nat \<Rightarrow> string" where
  "square_name sq = [''abcdefgh'' ! (sq mod 8), ''12345678'' ! (sq div 8 mod 8)]"

definition move_uci :: "move \<Rightarrow> string" where
  "move_uci m =
     square_name (from_square m) @ square_name (to_square m)
     @ (case promotion m of None \<Rightarrow> [] | Some p \<Rightarrow> [''?pnbrqk'' ! (p mod 7)])"

definition move_from_uci :: "string \<Rightarrow> error + move" where
  "move_from_uci s =
     (case s of
        [f1, r1, f2, r2] \<Rightarrow>
          (case (parse_square f1 r1, parse_square f2 r2) of
             (Some a, Some b) \<Rightarrow> if a = b then Inl InvalidMoveError else Inr (Move a b None)
           | _ \<Rightarrow> Inl InvalidMoveError)
      | [f1, r1, f2, r2, p] \<Rightarrow>
          (case (parse_square f1 r1, parse_square f2 r2, index_of p ''?pnbrqk'') of
             (Some a, Some b, Some k) \<Rightarrow>
               if a = b \<or> k = 0 then Inl InvalidMoveError else Inr (Move a b (Some k))
           | _ \<Rightarrow> Inl InvalidMoveError)
      | _ \<Rightarrow> Inl InvalidMoveError)"

definition example_positions :: "(string \<times> (move \<times> string) list) list" where
  "example_positions =
   [(''rnbqkbnr/pppppppp/8/8/8/8/PPPPPPPP/RNBQKBNR w KQkq - 0 1'',
      [(Move 6 23 None, ''rnbqkbnr/pppppppp/8/8/8/7N/PPPPPPPP/RNBQKB1R b KQkq - 1 1''),
       (Move 6 21 None, ''rnbqkbnr/pppppppp/8/8/8/5N2/PPPPPPPP/RNBQKB1R b KQkq - 1 1''),
       (Move 1 18 None, ''rnbqkbnr/pppppppp/8/8/8/2N5/PPPPPPPP/R1BQKBNR b KQkq - 1 1''),
       (Move 1 16 None, ''rnbqkbnr/pppppppp/8/8/8/N7/PPPPPPPP/R1BQKBNR b KQkq - 1 1''),
       (Move 15 23 None, ''rnbqkbnr/pppppppp/8/8/8/7P/PPPPPPP1/RNBQKBNR b KQkq - 0 1''),
       (Move 14 22 None, ''rnbqkbnr/pppppppp/8/8/8/6P1/PPPPPP1P/RNBQKBNR b KQkq - 0 1''),
       (Move 13 21 None, ''rnbqkbnr/pppppppp/8/8/8/5P2/PPPPP1PP/RNBQKBNR b KQkq - 0 1''),
       (Move 12 20 None, ''rnbqkbnr/pppppppp/8/8/8/4P3/PPPP1PPP/RNBQKBNR b KQkq - 0 1''),
       (Move 11 19 None, ''rnbqkbnr/pppppppp/8/8/8/3P4/PPP1PPPP/RNBQKBNR b KQkq - 0 1''),
       (Move 10 18 None, ''rnbqkbnr/pppppppp/8/8/8/2P5/PP1PPPPP/RNBQKBNR b KQkq - 0 1''),
       (Move 9 17 None, ''rnbqkbnr/pppppppp/8/8/8/1P6/P1PPPPPP/RNBQKBNR b KQkq - 0 1''),
       (Move 8 16 None, ''rnbqkbnr/pppppppp/8/8/8/P7/1PPPPPPP/RNBQKBNR b KQkq - 0 1''),
       (Move 15 31 None, ''rnbqkbnr/pppppppp/8/8/7P/8/PPPPPPP1/RNBQKBNR b KQkq - 0 1''),
       (Move 14 30 None, ''rnbqkbnr/pppppppp/8/8/6P1/8/PPPPPP1P/RNBQKBNR b KQkq - 0 1''),
       (Move 13 29 None, ''rnbqkbnr/pppppppp/8/8/5P2/8/PPPPP1PP/RNBQKBNR b KQkq - 0 1''),
       (Move 12 28 None, ''rnbqkbnr/pppppppp/8/8/4P3/8/PPPP1PPP/RNBQKBNR b KQkq - 0 1''),
       (Move 11 27 None, ''rnbqkbnr/pppppppp/8/8/3P4/8/PPP1PPPP/RNBQKBNR b KQkq - 0 1''),
       (Move 10 26 None, ''rnbqkbnr/pppppppp/8/8/2P5/8/PP1PPPPP/RNBQKBNR b KQkq - 0 1''),
       (Move 9 25 None, ''rnbqkbnr/pppppppp/8/8/1P6/8/P1PPPPPP/RNBQKBNR b KQkq - 0 1''),
       (Move 8 24 None, ''rnbqkbnr/pppppppp/8/8/P7/8/1PPPPPPP/RNBQKBNR b KQkq - 0 1'')]),
    (''rnbqkbnr/pppppppp/8/8/4P3/8/PPPP1PPP/RNBQKBNR b KQkq - 0 1'',
      [(Move 62 47 None, ''rnbqkb1r/pppppppp/7n/8/4P3/8/PPPP1PPP/RNBQKBNR w KQkq - 1 2''),
       (Move 62 45 None, ''rnbqkb1r/pppppppp/5n2/8/4P3/8/PPPP1PPP/RNBQKBNR w KQkq - 1 2''),
       (Move 57 42 None, ''r1bqkbnr/pppppppp/2n5/8/4P3/8/PPPP1PPP/RNBQKBNR w KQkq - 1 2''),
       (Move 57 40 None, ''r1bqkbnr/pppppppp/n7/8/4P3/8/PPPP1PPP/RNBQKBNR w KQkq - 1 2''),
       (Move 55 47 None, ''rnbqkbnr/ppppppp1/7p/8/4P3/8/PPPP1PPP/RNBQKBNR w KQkq - 0 2''),
       (Move 54 46 None, ''rnbqkbnr/pppppp1p/6p1/8/4P3/8/PPPP1PPP/RNBQKBNR w KQkq - 0 2''),
       (Move 53 45 None, ''rnbqkbnr/ppppp1pp/5p2/8/4P3/8/PPPP1PPP/RNBQKBNR w KQkq - 0 2''),
       (Move 52 44 None, ''rnbqkbnr/pppp1ppp/4p3/8/4P3/8/PPPP1PPP/RNBQKBNR w KQkq - 0 2''),
       (Move 51 43 None, ''rnbqkbnr/ppp1pppp/3p4/8/4P3/8/PPPP1PPP/RNBQKBNR w KQkq - 0 2''),
       (Move 50 42 None, ''rnbqkbnr/pp1ppppp/2p5/8/4P3/8/PPPP1PPP/RNBQKBNR w KQkq - 0 2''),
       (Move 49 41 None, ''rnbqkbnr/p1pppppp/1p6/8/4P3/8/PPPP1PPP/RNBQKBNR w KQkq - 0 2''),
       (Move 48 40 None, ''rnbqkbnr/1ppppppp/p7/8/4P3/8/PPPP1PPP/RNBQKBNR w KQkq - 0 2''),
       (Move 55 39 None, ''rnbqkbnr/ppppppp1/8/7p/4P3/8/PPPP1PPP/RNBQKBNR w KQkq - 0 2''),
       (Move 54 38 None, ''rnbqkbnr/pppppp1p/8/6p1/4P3/8/PPPP1PPP/RNBQKBNR w KQkq - 0 2''),
       (Move 53 37 None, ''rnbqkbnr/ppppp1pp/8/5p2/4P3/8/PPPP1PPP/RNBQKBNR w KQkq - 0 2''),
       (Move 52 36 None, ''rnbqkbnr/pppp1ppp/8/4p3/4P3/8/PPPP1PPP/RNBQKBNR w KQkq - 0 2''),
       (Move 51 35 None, ''rnbqkbnr/ppp1pppp/8/3p4/4P3/8/PPPP1PPP/RNBQKBNR w KQkq - 0 2''),
       (Move 50 34 None, ''rnbqkbnr/pp1ppppp/8/2p5/4P3/8/PPPP1PPP/RNBQKBNR w KQkq - 0 2''),
       (Move 49 33 None, ''rnbqkbnr/p1pppppp/8/1p6/4P3/8/PPPP1PPP/RNBQKBNR w KQkq - 0 2''),
       (Move 48 32 None, ''rnbqkbnr/1ppppppp/8/p7/4P3/8/PPPP1PPP/RNBQKBNR w KQkq - 0 2'')]),
    (''7k/p7/5K2/6Q1/8/8/8/8 b - - 0 1'',
      [(Move 63 55 None, ''8/p6k/5K2/6Q1/8/8/8/8 w - - 1 2''),
       (Move 48 40 None, ''7k/8/p4K2/6Q1/8/8/8/8 w - - 0 2''),
       (Move 48 32 None, ''7k/8/5K2/p5Q1/8/8/8/8 w - - 0 2'')]),
    (''7k/5Q2/6K1/8/8/8/8/8 b - - 0 1'', []),
    (''rnb1kbnr/pppp1ppp/8/4p3/6Pq/5P2/PPPPP2P/RNBQKBNR w KQkq - 1 3'', [])]"

definition example_engine :: "(string, move) rules_engine" where
  "example_engine =
     \<lparr>Board = (\<lambda>f. if f \<in> set (map fst example_positions) then Inr f else Inl InvalidFen),
      legal_moves = (\<lambda>p. case map_of example_positions p of None \<Rightarrow> [] | Some ms \<Rightarrow> map fst ms),
      uci = move_uci,
      push_uci = (\<lambda>p s.
        case move_from_uci s of
          Inl e \<Rightarrow> Inl e
        | Inr m \<Rightarrow>
            (case map_of example_positions p of
               None \<Rightarrow> Inl IllegalMoveError
             | Some ms \<Rightarrow>
                 (case map_of ms m of None \<Rightarrow> Inl IllegalMoveError | Some f \<Rightarrow> Inr f))),
      board_fen = (\<lambda>p. p),
      from_uci = move_from_uci\<rparr>"

definition starting_fen :: string where
  "starting_fen = ''rnbqkbnr/pppppppp/8/8/8/8/PPPPPPPP/RNBQKBNR w KQkq - 0 1''"

definition fen_after_e4 :: string where
  "fen_after_e4 = ''rnbqkbnr/pppppppp/8/8/4P3/8/PPPP1PPP/RNBQKBNR b KQkq - 0 1''"

definition endgame_fen :: string where
  "endgame_fen = ''7k/p7/5K2/6Q1/8/8/8/8 b - - 0 1''"

definition stalemate_fen :: string where
  "stalemate_fen = ''7k/5Q2/6K1/8/8/8/8/8 b - - 0 1''"

definition checkmate_fen :: string where
  "checkmate_fen = ''rnb1kbnr/pppp1ppp/8/4p3/6Pq/5P2/PPPPP2P/RNBQKBNR w KQkq - 1 3''"



section \<open>Properties of the board encoder\<close>

lemma split_sep_concat: "concat (split_sep sep s) = filter (\<lambda>c. c \<noteq> sep) s"
  by (induction s) (auto split: list.splits)

lemma fold_addon: "fold (\<lambda>char board_string. board_string @ addon char) row acc = acc @ concat (map addon row)"
  by (induction row arbitrary: acc) auto

lemma fold_rows: "fold (\<lambda>row board_string. fold (\<lambda>char board_string. board_string @ addon char) row board_string) rows acc
   = acc @ concat (map addon (concat rows))"
  by (induction rows arbitrary: acc) (auto simp: fold_addon)

lemma board_string_of_eq: "board_string_of placement = concat (map addon (filter (\<lambda>c. c \<noteq> CHR ''/'') placement))"
  by (simp add: board_string_of_def fold_rows split_sep_concat)

lemma piece_dict_lt: "piece_dict c = Some k \<Longrightarrow> k < 13"
  by (auto simp: piece_dict_def split: if_splits)

lemma dom_piece_dict: "dom piece_dict = set ''0PNBRQKpnbrqk''"
  by (auto simp: piece_dict_def split: if_splits)

lemma set_squares_append:
  "set_squares (xs @ ys) s arr = (case set_squares xs s arr of Inl e \<Rightarrow> Inl e | Inr arr' \<Rightarrow> set_squares ys s arr')"
  by (induction xs arbitrary: arr) (auto split: option.splits)

lemma set_squares_length: "set_squares xs s arr = Inr arr' \<Longrightarrow> length arr' = length arr"
  by (induction xs arbitrary: arr) (auto split: option.splits)

lemma set_squares_ok:
  "\<forall>i\<in>set xs. piece_dict (s ! i) \<noteq> None \<Longrightarrow> \<exists>arr'. set_squares xs s arr = Inr arr'"
  by (induction xs arbitrary: arr) (auto split: option.splits)

lemma set_squares_Inr_dom:
  "set_squares xs s arr = Inr arr' \<Longrightarrow> i \<in> set xs \<Longrightarrow> piece_dict (s ! i) \<noteq> None"
  by (induction xs arbitrary: arr) (auto split: option.splits)

lemma set_squares_upt_nth:
  "set_squares [0..<n] s arr = Inr arr' \<Longrightarrow> j < length arr \<Longrightarrow>
   arr' ! j = (if j < 13 * n \<and> piece_dict (s ! (j div 13)) = Some (j mod 13) then 1 else arr ! j)"
proof (induction n arbitrary: arr')
  case 0
  then show ?case by simp
next
  case (Suc n)
  from Suc.prems(1) obtain mid k where mid: "set_squares [0..<n] s arr = Inr mid"
    and k: "piece_dict (s ! n) = Some k" and arr': "arr' = mid[13 * n + k := 1]"
    by (auto simp: set_squares_append split: sum.splits option.splits)
  have len: "length mid = length arr" using mid by (rule set_squares_length)
  have klt: "k < 13" using k by (rule piece_dict_lt)
  note IH = Suc.IH[OF mid Suc.prems(2)]
  show ?case
  proof (cases "j = 13 * n + k")
    case True
    then have "j div 13 = n" "j mod 13 = k" using klt by auto
    with True k klt arr' len Suc.prems(2) show ?thesis by simp
  next
    case False
    then have eq: "arr' ! j = mid ! j" using arr' by simp
    show ?thesis
    proof (cases "j < 13 * n")
      case True
      then show ?thesis using eq IH by simp
    next
      case False
      note nlt = this
      show ?thesis
      proof (cases "j < 13 * Suc n")
        case True
        with nlt have "j div 13 = n" by auto
        moreover have "j mod 13 \<noteq> k" using \<open>j \<noteq> 13 * n + k\<close> \<open>j div 13 = n\<close>
          by (metis mult.commute div_mult_mod_eq)
        ultimately show ?thesis using eq IH nlt True k by simp
      next
        case False
        then show ?thesis using eq IH nlt by simp
      qed
    qed
  qed
qed


lemma concat_blocks_take:
  "concat (map (\<lambda>i. take m (drop (m * i) xs)) [0..<n]) = take (m * n) xs"
proof (induction n)
  case 0
  then show ?case by simp
next
  case (Suc n)
  have "m * Suc n = m * n + m" by simp
  then have "take (m * Suc n) xs = take (m * n) xs @ take m (drop (m * n) xs)"
    by (simp only: take_add)
  with Suc show ?case by simp
qed

lemma sum_list_concat_map:
  fixes f :: "'a \<Rightarrow> real list"
  shows "sum_list (concat (map f xs)) = (\<Sum>x\<leftarrow>xs. sum_list (f x))"
  by (induction xs) auto

lemma sum_list_blocks:
  fixes xs :: "real list"
  assumes "length xs = m * n"
  shows "sum_list xs = (\<Sum>i\<leftarrow>[0..<n]. sum_list (take m (drop (m * i) xs)))"
proof -
  have "xs = concat (map (\<lambda>i. take m (drop (m * i) xs)) [0..<n])"
    using assms by (simp add: concat_blocks_take)
  then have "sum_list xs = sum_list (concat (map (\<lambda>i. take m (drop (m * i) xs)) [0..<n]))"
    by simp
  also have "\<dots> = (\<Sum>i\<leftarrow>[0..<n]. sum_list (take m (drop (m * i) xs)))"
    by (rule sum_list_concat_map)
  finally show ?thesis .
qed

lemma block_sum_one:
  fixes arr :: "real list"
  assumes len: "13 * i + 13 \<le> length arr" and k: "k < 13"
    and slots: "\<forall>k'<13. arr ! (13 * i + k') = (if k' = k then 1 else 0)"
  shows "sum_list (take 13 (drop (13 * i) arr)) = 1"
proof -
  have l: "length (take 13 (drop (13 * i) arr)) = 13" using len by simp
  have "sum_list (take 13 (drop (13 * i) arr)) = (\<Sum>k' = 0..<13. take 13 (drop (13 * i) arr) ! k')"
    using l by (simp add: sum_list_sum_nth)
  also have "\<dots> = (\<Sum>k' = 0..<13. if k' = k then 1 else 0)"
    using slots len by (intro sum.cong) auto
  also have "\<dots> = 1" using k by simp
  finally show ?thesis .
qed

lemma fen_to_array_placement:
  "split_ws fen = placement # rest \<Longrightarrow>
   fen_to_array fen =
     (if length (board_string_of placement) \<noteq> 64
      then Inl (BoardStringLength (length (board_string_of placement)))
      else set_squares [0..<64] (board_string_of placement) (replicate 832 0))"
  by (simp add: fen_to_array_def Let_def)

lemma encode_slots:
  assumes ok: "set_squares [0..<64] s (replicate 832 0) = Inr arr" and len: "length s = 64"
    and i: "i < 64"
  shows "\<exists>k<13. piece_dict (s ! i) = Some k \<and> (\<forall>k'<13. arr ! (13 * i + k') = (if k' = k then 1 else 0))"
proof -
  have "piece_dict (s ! i) \<noteq> None" using set_squares_Inr_dom[OF ok, of i] i by simp
  then obtain k where k: "piece_dict (s ! i) = Some k" by auto
  have klt: "k < 13" using k by (rule piece_dict_lt)
  have "arr ! (13 * i + k') = (if k' = k then 1 else 0)" if "k' < 13" for k'
  proof -
    have j: "13 * i + k' < 832" using i that by simp
    have d: "(13 * i + k') div 13 = i" "(13 * i + k') mod 13 = k'" using that by auto
    show ?thesis using set_squares_upt_nth[OF ok, of "13 * i + k'"] j d k by auto
  qed
  with k klt show ?thesis by blast
qed

text \<open>
  Claim C2. When the placement field of a FEN (its first whitespace-delimited token) expands
  to exactly 64 characters, all of them among the 13 known symbols, \<open>fen_to_array\<close>
  returns a vector of length 832; for each square \<open>i < 64\<close>, the slot \<open>13 * i + k\<close> of
  the class \<open>k\<close> of the square's symbol is 1 and the other twelve slots of the block are 0;
  every block of 13 sums to 1 and the whole vector sums to 64.
\<close>

theorem fen_to_array_one_hot:
  assumes tok: "split_ws fen = placement # rest"
    and len: "length (board_string_of placement) = 64"
    and sym: "set (board_string_of placement) \<subseteq> set ''0PNBRQKpnbrqk''"
  shows "\<exists>board_array. fen_to_array fen = Inr board_array \<and> length board_array = 832 \<and>
           (\<forall>i<64. \<exists>k<13. piece_dict (board_string_of placement ! i) = Some k \<and>
                      (\<forall>k'<13. board_array ! (13 * i + k') = (if k' = k then 1 else 0))) \<and>
           (\<forall>i<64. sum_list (take 13 (drop (13 * i) board_array)) = 1) \<and>
           sum_list board_array = 64"
proof -
  let ?s = "board_string_of placement"
  have "\<forall>i\<in>set [0..<64]. piece_dict (?s ! i) \<noteq> None"
  proof
    fix i assume "i \<in> set [0..<64]"
    then have "?s ! i \<in> set ?s" using len by simp
    then have "?s ! i \<in> dom piece_dict" using sym dom_piece_dict by blast
    then show "piece_dict (?s ! i) \<noteq> None" by auto
  qed
  then obtain arr where arr: "set_squares [0..<64] ?s (replicate 832 0) = Inr arr"
    using set_squares_ok by blast
  have res: "fen_to_array fen = Inr arr"
    using fen_to_array_placement[OF tok] len arr by simp
  have l: "length arr = 832" using set_squares_length[OF arr] by simp
  have slots: "\<forall>i<64. \<exists>k<13. piece_dict (?s ! i) = Some k \<and>
                      (\<forall>k'<13. arr ! (13 * i + k') = (if k' = k then 1 else 0))"
    using encode_slots[OF arr len] by blast
  have blocks: "\<forall>i<64. sum_list (take 13 (drop (13 * i) arr)) = 1"
  proof (intro allI impI)
    fix i :: nat assume i: "i < 64"
    from slots i obtain k where "k < 13"
      "\<forall>k'<13. arr ! (13 * i + k') = (if k' = k then 1 else 0)" by blast
    moreover have "13 * i + 13 \<le> length arr" using i l by simp
    ultimately show "sum_list (take 13 (drop (13 * i) arr)) = 1" by (rule block_sum_one[rotated])
  qed
  have "sum_list arr = (\<Sum>i\<leftarrow>[0..<64]. sum_list (take 13 (drop (13 * i) arr)))"
    using l by (intro sum_list_blocks) simp
  also have "\<dots> = (\<Sum>i\<leftarrow>[0..<64]. 1)"
    using blocks by (intro arg_cong[where f = sum_list] map_cong) auto
  also have "\<dots> = 64" by (simp add: sum_list_triv)
  finally have total: "sum_list arr = 64" .
  from res l slots blocks total show ?thesis by blast
qed

theorem fen_to_array_one_hot_witness:
  "split_ws ''rnbqkbnr/pp1ppppp/8/2p5/4P3/5N2/PPPP1PPP/RNBQKB1R b KQkq - 1 2''
     = ''rnbqkbnr/pp1ppppp/8/2p5/4P3/5N2/PPPP1PPP/RNBQKB1R'' # [''b'', ''KQkq'', ''-'', ''1'', ''2'']
   \<and> length (board_string_of ''rnbqkbnr/pp1ppppp/8/2p5/4P3/5N2/PPPP1PPP/RNBQKB1R'') = 64
   \<and> set (board_string_of ''rnbqkbnr/pp1ppppp/8/2p5/4P3/5N2/PPPP1PPP/RNBQKB1R'')
        \<subseteq> set ''0PNBRQKpnbrqk''
   \<and> (\<exists>board_array.
         fen_to_array ''rnbqkbnr/pp1ppppp/8/2p5/4P3/5N2/PPPP1PPP/RNBQKB1R b KQkq - 1 2''
           = Inr board_array
         \<and> length board_array = 832
         \<and> (\<forall>i<64. sum_list (take 13 (drop (13 * i) board_array)) = 1)
         \<and> sum_list board_array = 64)"
proof -
  have tok: "split_ws ''rnbqkbnr/pp1ppppp/8/2p5/4P3/5N2/PPPP1PPP/RNBQKB1R b KQkq - 1 2''
     = ''rnbqkbnr/pp1ppppp/8/2p5/4P3/5N2/PPPP1PPP/RNBQKB1R'' # [''b'', ''KQkq'', ''-'', ''1'', ''2'']"
    by code_simp
  have len: "length (board_string_of ''rnbqkbnr/pp1ppppp/8/2p5/4P3/5N2/PPPP1PPP/RNBQKB1R'') = 64"
    by code_simp
  have sym: "set (board_string_of ''rnbqkbnr/pp1ppppp/8/2p5/4P3/5N2/PPPP1PPP/RNBQKB1R'')
        \<subseteq> set ''0PNBRQKpnbrqk''"
    by code_simp
  from fen_to_array_one_hot[OF tok len sym] tok len sym show ?thesis by blast
qed


lemma set_squares_first_bad:
  assumes j: "j < n" and bad: "piece_dict (s ! j) = None"
    and before: "\<forall>i<j. piece_dict (s ! i) \<noteq> None"
  shows "set_squares [0..<n] s arr = Inl (KeyError (s ! j))"
proof -
  have split: "[0..<n] = [0..<j] @ j # [Suc j..<n]"
    using j by (metis le_add1 less_imp_add_positive upt_add_eq_append upt_conv_Cons zero_le)
  have "\<forall>i\<in>set [0..<j]. piece_dict (s ! i) \<noteq> None" using before by simp
  then obtain mid where "set_squares [0..<j] s arr = Inr mid"
    using set_squares_ok by blast
  then show ?thesis using bad by (simp add: split set_squares_append)
qed

lemma set_squares_error: "set_squares xs s arr = Inl e \<Longrightarrow> \<exists>c. e = KeyError c"
  by (induction xs arbitrary: arr) (auto split: option.splits)

text \<open>
  Claim C3. When the placement field expands to exactly 64 characters and one of them is
  outside the 13 known symbols, \<open>fen_to_array\<close> fails with the \<open>KeyError\<close> of the first
  such character (the spec's InvalidPieceSymbol); the table maps no character outside the
  13 symbols to a class.
\<close>

theorem fen_to_array_invalid_symbol:
  assumes tok: "split_ws fen = placement # rest"
    and len: "length (board_string_of placement) = 64"
    and c: "c \<in> set (board_string_of placement)"
    and unknown: "c \<notin> set ''0PNBRQKpnbrqk''"
  shows "\<exists>j<64. board_string_of placement ! j \<notin> set ''0PNBRQKpnbrqk''
           \<and> (\<forall>i<j. board_string_of placement ! i \<in> set ''0PNBRQKpnbrqk'')
           \<and> fen_to_array fen = Inl (KeyError (board_string_of placement ! j))
           \<and> piece_dict (board_string_of placement ! j) = None"
proof -
  let ?s = "board_string_of placement"
  let ?bad = "\<lambda>j. j < 64 \<and> ?s ! j \<notin> dom piece_dict"
  from c obtain j0 where "j0 < length ?s" "?s ! j0 = c" by (auto simp: in_set_conv_nth)
  then have ex: "?bad j0" using len unknown dom_piece_dict by simp
  define j where "j = (LEAST j. ?bad j)"
  have bad: "?bad j" unfolding j_def using ex by (rule LeastI)
  have least: "\<not> ?bad i" if "i < j" for i
    using that not_less_Least unfolding j_def by blast
  have before: "\<forall>i<j. piece_dict (?s ! i) \<noteq> None"
  proof (intro allI impI)
    fix i assume "i < j"
    with least[of i] bad have "?s ! i \<in> dom piece_dict" by simp
    then show "piece_dict (?s ! i) \<noteq> None" by auto
  qed
  have none: "piece_dict (?s ! j) = None" using bad by auto
  have "set_squares [0..<64] ?s (replicate 832 0) = Inl (KeyError (?s ! j))"
    using bad none before by (intro set_squares_first_bad) auto
  then have "fen_to_array fen = Inl (KeyError (?s ! j))"
    using fen_to_array_placement[OF tok] len by simp
  moreover have "\<forall>i<j. ?s ! i \<in> set ''0PNBRQKpnbrqk''"
    using before dom_piece_dict by (metis domIff)
  moreover have "?s ! j \<notin> set ''0PNBRQKpnbrqk''" using bad dom_piece_dict by metis
  ultimately show ?thesis using bad none by blast
qed

theorem fen_to_array_invalid_symbol_witness:
  "split_ws ''rnbqkbnr/pppppppp/8/8/4X3/8/PPPP1PPP/RNBQKBN9 b KQkq - 0 1''
     = ''rnbqkbnr/pppppppp/8/8/4X3/8/PPPP1PPP/RNBQKBN9'' # [''b'', ''KQkq'', ''-'', ''0'', ''1'']
   \<and> length (board_string_of ''rnbqkbnr/pppppppp/8/8/4X3/8/PPPP1PPP/RNBQKBN9'') = 64
   \<and> CHR ''9'' \<in> set (board_string_of ''rnbqkbnr/pppppppp/8/8/4X3/8/PPPP1PPP/RNBQKBN9'')
   \<and> CHR ''9'' \<notin> set ''0PNBRQKpnbrqk''
   \<and> (\<exists>j<64. fen_to_array ''rnbqkbnr/pppppppp/8/8/4X3/8/PPPP1PPP/RNBQKBN9 b KQkq - 0 1''
         = Inl (KeyError (board_string_of ''rnbqkbnr/pppppppp/8/8/4X3/8/PPPP1PPP/RNBQKBN9'' ! j)))"
proof -
  have tok: "split_ws ''rnbqkbnr/pppppppp/8/8/4X3/8/PPPP1PPP/RNBQKBN9 b KQkq - 0 1''
     = ''rnbqkbnr/pppppppp/8/8/4X3/8/PPPP1PPP/RNBQKBN9'' # [''b'', ''KQkq'', ''-'', ''0'', ''1'']"
    by code_simp
  have len: "length (board_string_of ''rnbqkbnr/pppppppp/8/8/4X3/8/PPPP1PPP/RNBQKBN9'') = 64"
    by code_simp
  have c: "CHR ''9'' \<in> set (board_string_of ''rnbqkbnr/pppppppp/8/8/4X3/8/PPPP1PPP/RNBQKBN9'')"
    by code_simp
  have unknown: "CHR ''9'' \<notin> set ''0PNBRQKpnbrqk''" by simp
  from fen_to_array_invalid_symbol[OF tok len c unknown] tok len c unknown
  show ?thesis by blast
qed

text \<open>
  Claim C5. Two FEN strings with the same first whitespace-delimited token are encoded
  alike: the result, vector or exception, is a function of the placement field alone.
\<close>

theorem fen_to_array_placement_only:
  assumes "split_ws fen1 = placement # rest1" and "split_ws fen2 = placement # rest2"
  shows "fen_to_array fen1 = fen_to_array fen2"
  using assms by (simp add: fen_to_array_placement)

theorem fen_to_array_placement_only_witness:
  "split_ws ''r3k2r/8/8/3pP3/8/8/8/R3K2R w KQkq d6 0 12''
     = ''r3k2r/8/8/3pP3/8/8/8/R3K2R'' # [''w'', ''KQkq'', ''d6'', ''0'', ''12'']
   \<and> split_ws ''r3k2r/8/8/3pP3/8/8/8/R3K2R b - - 37 80''
     = ''r3k2r/8/8/3pP3/8/8/8/R3K2R'' # [''b'', ''-'', ''-'', ''37'', ''80'']
   \<and> fen_to_array ''r3k2r/8/8/3pP3/8/8/8/R3K2R w KQkq d6 0 12''
     = fen_to_array ''r3k2r/8/8/3pP3/8/8/8/R3K2R b - - 37 80''"
proof -
  have tok1: "split_ws ''r3k2r/8/8/3pP3/8/8/8/R3K2R w KQkq d6 0 12''
     = ''r3k2r/8/8/3pP3/8/8/8/R3K2R'' # [''w'', ''KQkq'', ''d6'', ''0'', ''12'']"
    by code_simp
  have tok2: "split_ws ''r3k2r/8/8/3pP3/8/8/8/R3K2R b - - 37 80''
     = ''r3k2r/8/8/3pP3/8/8/8/R3K2R'' # [''b'', ''-'', ''-'', ''37'', ''80'']"
    by code_simp
  from fen_to_array_placement_only[OF tok1 tok2] tok1 tok2 show ?thesis by blast
qed

text \<open>
  Claim C7. When the placement field expands to a string of a length other than 64,
  \<open>fen_to_array\<close> fails with the \<open>ValueError\<close> that reports that length (the spec's
  InvalidBoardLength); when it expands to exactly 64 characters, \<open>fen_to_array\<close> does not
  fail with that error, whatever the characters are.
\<close>

theorem fen_to_array_board_length:
  assumes tok: "split_ws fen = placement # rest"
  shows "(length (board_string_of placement) \<noteq> 64 \<longrightarrow>
            fen_to_array fen = Inl (BoardStringLength (length (board_string_of placement))))
       \<and> (length (board_string_of placement) = 64 \<longrightarrow>
            (\<forall>n. fen_to_array fen \<noteq> Inl (BoardStringLength n)))"
proof (intro conjI impI allI)
  assume "length (board_string_of placement) \<noteq> 64"
  then show "fen_to_array fen = Inl (BoardStringLength (length (board_string_of placement)))"
    using fen_to_array_placement[OF tok] by simp
next
  fix n assume "length (board_string_of placement) = 64"
  then have "fen_to_array fen
      = set_squares [0..<64] (board_string_of placement) (replicate 832 0)"
    using fen_to_array_placement[OF tok] by simp
  then show "fen_to_array fen \<noteq> Inl (BoardStringLength n)"
    using set_squares_error[of "[0..<64]" "board_string_of placement" "replicate 832 0"
        "BoardStringLength n"]
    by auto
qed

theorem fen_to_array_board_length_witness:
  "split_ws ''rnbqkbnr/pppppppp/8/8/8/81/PPPPPPPP/RNBQKBNR w KQkq - 0 1''
     = ''rnbqkbnr/pppppppp/8/8/8/81/PPPPPPPP/RNBQKBNR'' # [''w'', ''KQkq'', ''-'', ''0'', ''1'']
   \<and> length (board_string_of ''rnbqkbnr/pppppppp/8/8/8/81/PPPPPPPP/RNBQKBNR'') = 65
   \<and> fen_to_array ''rnbqkbnr/pppppppp/8/8/8/81/PPPPPPPP/RNBQKBNR w KQkq - 0 1''
       = Inl (BoardStringLength 65)
   \<and> split_ws ''rnbqkbnr/pppppppp/8/8/8/8/PPPPPPPP/RNBQKBN? w KQkq - 0 1''
     = ''rnbqkbnr/pppppppp/8/8/8/8/PPPPPPPP/RNBQKBN?'' # [''w'', ''KQkq'', ''-'', ''0'', ''1'']
   \<and> length (board_string_of ''rnbqkbnr/pppppppp/8/8/8/8/PPPPPPPP/RNBQKBN?'') = 64
   \<and> fen_to_array ''rnbqkbnr/pppppppp/8/8/8/8/PPPPPPPP/RNBQKBN? w KQkq - 0 1''
       \<noteq> Inl (BoardStringLength 64)"
proof -
  have tok1: "split_ws ''rnbqkbnr/pppppppp/8/8/8/81/PPPPPPPP/RNBQKBNR w KQkq - 0 1''
     = ''rnbqkbnr/pppppppp/8/8/8/81/PPPPPPPP/RNBQKBNR'' # [''w'', ''KQkq'', ''-'', ''0'', ''1'']"
    by code_simp
  have len1: "length (board_string_of ''rnbqkbnr/pppppppp/8/8/8/81/PPPPPPPP/RNBQKBNR'') = 65"
    by code_simp
  have tok2: "split_ws ''rnbqkbnr/pppppppp/8/8/8/8/PPPPPPPP/RNBQKBN? w KQkq - 0 1''
     = ''rnbqkbnr/pppppppp/8/8/8/8/PPPPPPPP/RNBQKBN?'' # [''w'', ''KQkq'', ''-'', ''0'', ''1'']"
    by code_simp
  have len2: "length (board_string_of ''rnbqkbnr/pppppppp/8/8/8/8/PPPPPPPP/RNBQKBN?'') = 64"
    by code_simp
  from fen_to_array_board_length[OF tok1] fen_to_array_board_length[OF tok2] tok1 len1 tok2 len2
  show ?thesis by simp
qed


section \<open>Properties of the move expander\<close>

lemma well_formed_placement_encodes:
  assumes "well_formed_placement s"
  shows "\<exists>arr. fen_to_array s = Inr arr"
proof -
  from assms obtain placement rest where tok: "split_ws s = placement # rest"
    and "length (board_string_of placement) = 64"
    and sym: "set (board_string_of placement) \<subseteq> set ''0PNBRQKpnbrqk''"
    by (auto simp: well_formed_placement_def split: list.splits)
  then have "fen_to_array s = set_squares [0..<64] (board_string_of placement) (replicate 832 0)"
    using fen_to_array_placement by simp
  moreover have "\<forall>i\<in>set [0..<64]. piece_dict (board_string_of placement ! i) \<noteq> None"
  proof
    fix i assume "i \<in> set [0..<64]"
    then have "board_string_of placement ! i \<in> set (board_string_of placement)"
      using \<open>length (board_string_of placement) = 64\<close> by simp
    then have "board_string_of placement ! i \<in> dom piece_dict"
      using sym dom_piece_dict by blast
    then show "piece_dict (board_string_of placement ! i) \<noteq> None" by auto
  qed
  ultimately show ?thesis using set_squares_ok by metis
qed

lemma replies_ok_push:
  assumes "replies_ok E board" and "move \<in> set (legal_moves E board)"
  shows "\<exists>pushed arr. push_uci E board (uci E move) = Inr pushed
           \<and> fen_to_array (board_fen E pushed) = Inr arr"
proof -
  from assms have "case push_uci E board (uci E move) of
      Inl e \<Rightarrow> False | Inr pushed \<Rightarrow> well_formed_placement (board_fen E pushed)"
    by (simp add: replies_ok_def list_all_iff)
  then obtain pushed where "push_uci E board (uci E move) = Inr pushed"
    and "well_formed_placement (board_fen E pushed)"
    by (auto split: sum.splits)
  then show ?thesis using well_formed_placement_encodes by blast
qed

text \<open>
  The loop when every step succeeds: one row per move, in order, appended to the rows
  collected so far.
\<close>

lemma expand_moves_rows:
  assumes "from_uci E target = Inr parsed"
    and "\<forall>move\<in>set moves. \<exists>pushed arr. push_uci E board (uci E move) = Inr pushed
           \<and> fen_to_array (board_fen E pushed) = Inr arr"
  shows "expand_moves E board target moves array_list =
           Inr (array_list @
                map (\<lambda>move. (projr (fen_to_array (board_fen E (projr (push_uci E board (uci E move))))),
                              if move = parsed then 1 else 0)) moves)"
  using assms
proof (induction moves arbitrary: array_list)
  case Nil
  then show ?case by simp
next
  case (Cons move rest)
  from Cons.prems(2) obtain pushed arr where p: "push_uci E board (uci E move) = Inr pushed"
    and a: "fen_to_array (board_fen E pushed) = Inr arr" by auto
  have "expand_moves E board target (move # rest) array_list
      = expand_moves E board target rest (array_list @ [(arr, if move = parsed then 1 else 0)])"
    using p a Cons.prems(1) by simp
  also have "\<dots> = Inr ((array_list @ [(arr, if move = parsed then 1 else 0)]) @
      map (\<lambda>move. (projr (fen_to_array (board_fen E (projr (push_uci E board (uci E move))))),
                    if move = parsed then 1 else 0)) rest)"
    using Cons.prems by (intro Cons.IH) auto
  finally show ?case using p a by simp
qed

lemma distinct_filter_eq_one:
  "distinct xs \<Longrightarrow> x \<in> set xs \<Longrightarrow> length (filter (\<lambda>y. y = x) xs) = 1"
  by (induction xs) (auto simp: filter_empty_conv)

lemma labels_positive:
  fixes moves :: "'mv list"
  shows "filter (\<lambda>label. label = (1::real)) (map (\<lambda>move. if move = parsed then 1 else 0) moves)
       = map (\<lambda>move. 1) (filter (\<lambda>move. move = parsed) moves)"
  by (induction moves) auto

lemma labels_negative:
  fixes moves :: "'mv list"
  shows "filter (\<lambda>label. label = (0::real)) (map (\<lambda>move. if move = parsed then 1 else 0) moves)
       = map (\<lambda>move. 0) (filter (\<lambda>move. move \<noteq> parsed) moves)"
  by (induction moves) auto

text \<open>What \<open>possible_moves\<close> returns when the engine keeps its side.\<close>

lemma possible_moves_rows:
  assumes board: "Board E (FEN fen_series) = Inr board"
    and ok: "replies_ok E board"
    and parsed: "from_uci E (target_move fen_series) = Inr parsed"
  shows "possible_moves E fen_series =
           Inr (map (\<lambda>move. (projr (fen_to_array (board_fen E (projr (push_uci E board (uci E move))))),
                               if move = parsed then 1 else 0)) (legal_moves E board))"
proof -
  have "\<forall>move\<in>set (legal_moves E board). \<exists>pushed arr.
          push_uci E board (uci E move) = Inr pushed \<and> fen_to_array (board_fen E pushed) = Inr arr"
    using replies_ok_push[OF ok] by blast
  from expand_moves_rows[OF parsed this, of "[]"] board show ?thesis
    by (simp add: possible_moves_def)
qed

lemma one_positive_label:
  fixes moves :: "'mv list"
  assumes "distinct moves" and "parsed \<in> set moves"
  shows "length (filter (\<lambda>label. label = (1::real))
                   (map (\<lambda>move. if move = parsed then 1 else 0) moves)) = 1"
    and "length (filter (\<lambda>label. label = (0::real))
                   (map (\<lambda>move. if move = parsed then 1 else 0) moves)) = length moves - 1"
proof -
  have one: "length (filter (\<lambda>move. move = parsed) moves) = 1"
    using assms by (rule distinct_filter_eq_one)
  then show "length (filter (\<lambda>label. label = (1::real))
                   (map (\<lambda>move. if move = parsed then 1 else 0) moves)) = 1"
    unfolding labels_positive by simp
  have "length (filter (\<lambda>move. move \<noteq> parsed) moves) = length moves - 1"
    using sum_length_filter_compl[of "\<lambda>move. move = parsed" moves] one by simp
  then show "length (filter (\<lambda>label. label = (0::real))
                   (map (\<lambda>move. if move = parsed then 1 else 0) moves)) = length moves - 1"
    unfolding labels_negative by simp
qed

text \<open>
  Claim C1. For a position the engine parses and whose legal moves it lists once each and
  can push (\<open>replies_ok\<close>), and a target that parses to one of these legal moves,
  \<open>possible_moves\<close> returns one row per legal move, in the engine's order; the row of a
  move is labelled 1 exactly when the move object equals the parsed target, so exactly one
  row has label 1 and every other row has label 0; the position of each row is the encoding
  of the FEN after its move.
\<close>

theorem possible_moves_one_positive:
  assumes board: "Board E (FEN fen_series) = Inr board"
    and ok: "replies_ok E board"
    and parsed: "from_uci E (target_move fen_series) = Inr parsed"
    and legal: "parsed \<in> set (legal_moves E board)"
  shows "\<exists>rows. possible_moves E fen_series = Inr rows
           \<and> length rows = length (legal_moves E board)
           \<and> map snd rows = map (\<lambda>move. if move = parsed then 1 else 0) (legal_moves E board)
           \<and> length (filter (\<lambda>label. label = 1) (map snd rows)) = 1
           \<and> length (filter (\<lambda>label. label = 0) (map snd rows)) = length rows - 1
           \<and> (\<forall>j<length rows. \<exists>pushed.
                 push_uci E board (uci E (legal_moves E board ! j)) = Inr pushed
                 \<and> fen_to_array (board_fen E pushed) = Inr (fst (rows ! j)))"
proof -
  let ?moves = "legal_moves E board"
  let ?row = "\<lambda>move. (projr (fen_to_array (board_fen E (projr (push_uci E board (uci E move))))),
                       if move = parsed then 1 else (0::real))"
  have push: "\<forall>move\<in>set ?moves. \<exists>pushed arr. push_uci E board (uci E move) = Inr pushed
           \<and> fen_to_array (board_fen E pushed) = Inr arr"
    using replies_ok_push[OF ok] by blast
  have res: "possible_moves E fen_series = Inr (map ?row ?moves)"
    using board ok parsed by (rule possible_moves_rows)
  have labels: "map snd (map ?row ?moves) = map (\<lambda>move. if move = parsed then 1 else 0) ?moves"
    by simp
  have dist: "distinct ?moves" using ok by (simp add: replies_ok_def)
  have pos: "length (filter (\<lambda>label. label = 1) (map snd (map ?row ?moves))) = 1"
    unfolding labels using dist legal by (rule one_positive_label(1))
  have neg: "length (filter (\<lambda>label. label = 0) (map snd (map ?row ?moves)))
      = length (map ?row ?moves) - 1"
    unfolding labels using one_positive_label(2)[OF dist legal] by simp
  have enc: "\<forall>j<length (map ?row ?moves). \<exists>pushed.
                 push_uci E board (uci E (?moves ! j)) = Inr pushed
                 \<and> fen_to_array (board_fen E pushed) = Inr (fst (map ?row ?moves ! j))"
  proof (intro allI impI)
    fix j assume "j < length (map ?row ?moves)"
    then have j: "j < length ?moves" by simp
    then have "?moves ! j \<in> set ?moves" by simp
    with push obtain pushed arr where "push_uci E board (uci E (?moves ! j)) = Inr pushed"
      "fen_to_array (board_fen E pushed) = Inr arr" by blast
    then show "\<exists>pushed. push_uci E board (uci E (?moves ! j)) = Inr pushed
                 \<and> fen_to_array (board_fen E pushed) = Inr (fst (map ?row ?moves ! j))"
      using j by simp
  qed
  show ?thesis
    using res labels pos neg enc by (intro exI[of _ "map ?row ?moves"]) simp
qed


theorem possible_moves_one_positive_witness:
  "Board example_engine (FEN \<lparr>FEN = endgame_fen, target_move = ''a7a6''\<rparr>) = Inr endgame_fen
   \<and> replies_ok example_engine endgame_fen
   \<and> from_uci example_engine (target_move \<lparr>FEN = endgame_fen, target_move = ''a7a6''\<rparr>)
       = Inr (Move 48 40 None)
   \<and> Move 48 40 None \<in> set (legal_moves example_engine endgame_fen)
   \<and> (\<exists>rows. possible_moves example_engine \<lparr>FEN = endgame_fen, target_move = ''a7a6''\<rparr>
                = Inr rows
          \<and> length rows = 3
          \<and> map snd rows = [0, 1, 0]
          \<and> length (filter (\<lambda>label. label = 1) (map snd rows)) = 1
          \<and> length (filter (\<lambda>label. label = 0) (map snd rows)) = 2)"
proof -
  let ?row = "\<lparr>FEN = endgame_fen, target_move = ''a7a6''\<rparr>"
  have board: "Board example_engine (FEN ?row) = Inr endgame_fen"
    by code_simp
  have ok: "replies_ok example_engine endgame_fen"
    by code_simp
  have parsed: "from_uci example_engine (target_move ?row) = Inr (Move 48 40 None)"
    by code_simp
  have moves: "legal_moves example_engine endgame_fen
      = [Move 63 55 None, Move 48 40 None, Move 48 32 None]"
    by code_simp
  have legal: "Move 48 40 None \<in> set (legal_moves example_engine endgame_fen)"
    by (simp add: moves)
  from possible_moves_one_positive[OF board ok parsed legal]
  obtain rows where rows: "possible_moves example_engine ?row = Inr rows"
    and "length rows = length (legal_moves example_engine endgame_fen)"
    and "map snd rows = map (\<lambda>move. if move = Move 48 40 None then 1 else 0)
        (legal_moves example_engine endgame_fen)"
    and "length (filter (\<lambda>label. label = 1) (map snd rows)) = 1"
    and "length (filter (\<lambda>label. label = 0) (map snd rows)) = length rows - 1"
    by blast
  then have "possible_moves example_engine ?row = Inr rows
      \<and> length rows = 3 \<and> map snd rows = [0, 1, 0]
      \<and> length (filter (\<lambda>label. label = 1) (map snd rows)) = 1
      \<and> length (filter (\<lambda>label. label = 0) (map snd rows)) = 2"
    unfolding moves by simp
  then have "\<exists>rows. possible_moves example_engine ?row = Inr rows
      \<and> length rows = 3 \<and> map snd rows = [0, 1, 0]
      \<and> length (filter (\<lambda>label. label = 1) (map snd rows)) = 1
      \<and> length (filter (\<lambda>label. label = 0) (map snd rows)) = 2"
    by (rule exI)
  with board ok parsed legal show ?thesis by (intro conjI)
qed


text \<open>
  Claim C9. When the engine parses the position and lists no legal move for it (checkmate
  or stalemate), \<open>possible_moves\<close> returns the empty sequence of rows and raises nothing,
  whatever the target is: the target is not even parsed.
\<close>

theorem possible_moves_terminal:
  assumes "Board E (FEN fen_series) = Inr board" and "legal_moves E board = []"
  shows "possible_moves E fen_series = Inr []"
  using assms by (simp add: possible_moves_def)

theorem possible_moves_terminal_witness:
  "Board example_engine (FEN \<lparr>FEN = stalemate_fen, target_move = ''not a move''\<rparr>)
     = Inr stalemate_fen
   \<and> legal_moves example_engine stalemate_fen = []
   \<and> from_uci example_engine ''not a move'' = Inl InvalidMoveError
   \<and> possible_moves example_engine \<lparr>FEN = stalemate_fen, target_move = ''not a move''\<rparr>
       = Inr []"
proof -
  have board: "Board example_engine (FEN \<lparr>FEN = stalemate_fen, target_move = ''not a move''\<rparr>)
     = Inr stalemate_fen"
    by code_simp
  have none: "legal_moves example_engine stalemate_fen = []"
    by code_simp
  have bad: "from_uci example_engine ''not a move'' = Inl InvalidMoveError"
    by code_simp
  from possible_moves_terminal[OF board none] board none bad show ?thesis by (intro conjI)
qed

text \<open>
  Claim C10. When the engine parses the position and lists at least one legal move, and the
  target cannot be parsed as a move, \<open>possible_moves\<close> raises: it returns no sequence of
  rows, so no rows all labelled 0. When the engine can push its first legal move, the
  exception is the parse error of the target, raised in the first step of the loop.
\<close>

theorem possible_moves_malformed_target:
  assumes board: "Board E (FEN fen_series) = Inr board"
    and some: "legal_moves E board \<noteq> []"
    and bad: "from_uci E (target_move fen_series) = Inl e"
  shows "(\<exists>e'. possible_moves E fen_series = Inl e')
       \<and> (\<forall>rows. possible_moves E fen_series \<noteq> Inr rows)
       \<and> (\<forall>pushed. push_uci E board (uci E (hd (legal_moves E board))) = Inr pushed
             \<longrightarrow> possible_moves E fen_series = Inl e)"
proof -
  from some obtain move rest where moves: "legal_moves E board = move # rest"
    by (cases "legal_moves E board") auto
  have res: "possible_moves E fen_series =
      (case push_uci E board (uci E move) of Inl e' \<Rightarrow> Inl e' | Inr pushed \<Rightarrow> Inl e)"
    using board bad by (simp add: possible_moves_def moves split: sum.splits)
  show ?thesis
  proof (cases "push_uci E board (uci E move)")
    case (Inl e')
    with res moves show ?thesis by simp
  next
    case (Inr pushed)
    with res moves show ?thesis by simp
  qed
qed

theorem possible_moves_malformed_target_witness:
  "Board example_engine (FEN \<lparr>FEN = endgame_fen, target_move = ''a7a''\<rparr>) = Inr endgame_fen
   \<and> legal_moves example_engine endgame_fen \<noteq> []
   \<and> from_uci example_engine (target_move \<lparr>FEN = endgame_fen, target_move = ''a7a''\<rparr>)
       = Inl InvalidMoveError
   \<and> push_uci example_engine endgame_fen
        (uci example_engine (hd (legal_moves example_engine endgame_fen)))
       = Inr ''8/p6k/5K2/6Q1/8/8/8/8 w - - 1 2''
   \<and> possible_moves example_engine \<lparr>FEN = endgame_fen, target_move = ''a7a''\<rparr>
       = Inl InvalidMoveError"
proof -
  let ?row = "\<lparr>FEN = endgame_fen, target_move = ''a7a''\<rparr>"
  have board: "Board example_engine (FEN ?row) = Inr endgame_fen"
    by code_simp
  have some: "legal_moves example_engine endgame_fen \<noteq> []"
    by code_simp
  have bad: "from_uci example_engine (target_move ?row) = Inl InvalidMoveError"
    by code_simp
  have push: "push_uci example_engine endgame_fen
        (uci example_engine (hd (legal_moves example_engine endgame_fen)))
       = Inr ''8/p6k/5K2/6Q1/8/8/8/8 w - - 1 2''"
    by code_simp
  from possible_moves_malformed_target[OF board some bad] push
  have "possible_moves example_engine ?row = Inl InvalidMoveError" by simp
  with board some bad push show ?thesis by (intro conjI)
qed

section \<open>Properties of the streaming converter\<close>

lemma apply_rows_ok:
  "\<forall>x\<in>set xs. \<exists>y. f x = Inr y \<Longrightarrow> apply_rows f xs = Inr (map (\<lambda>x. projr (f x)) xs)"
  by (induction xs) auto

lemma to_csv_default:
  "to_csv outfile df [''Position'', ''Target''] header mode =
     Inr ((if mode = ''w'' then [] else outfile)
          @ (if header then [Header [''Position'', ''Target'']] else [])
          @ map (\<lambda>row. Data [Array (fst row), Float (snd row)]) df)"
  by (simp add: to_csv_def)

lemma expand_moves_length:
  "expand_moves E board target moves array_list = Inr rows \<Longrightarrow>
   length rows = length array_list + length moves"
proof (induction moves arbitrary: array_list)
  case Nil
  then show ?case by simp
next
  case (Cons move rest)
  from Cons.prems obtain position label where
    "expand_moves E board target rest (array_list @ [(position, label)]) = Inr rows"
    by (auto simp: Let_def split: sum.splits)
  from Cons.IH[OF this] show ?case by simp
qed

lemma possible_moves_length:
  "possible_moves E fen_series = Inr rows \<Longrightarrow> length rows = legal_move_count E fen_series"
  by (auto simp: possible_moves_def legal_move_count_def Let_def split: sum.splits
      dest: expand_moves_length)

text \<open>The chunks after the first: each appends its data records and nothing else.\<close>

lemma convert_chunks_later:
  assumes "0 < n"
    and "\<forall>chunk\<in>set chunks. chunk \<noteq> [] \<and> (\<forall>r\<in>set chunk. \<exists>rows. possible_moves E r = Inr rows)"
  shows "convert_chunks E [''Position'', ''Target''] (enumerate n chunks) outfile =
           (outfile @ map (\<lambda>row. Data [Array (fst row), Float (snd row)])
                        (concat (map (\<lambda>r. projr (possible_moves E r)) (concat chunks))),
            None)"
  using assms
proof (induction chunks arbitrary: n outfile)
  case Nil
  then show ?case by simp
next
  case (Cons chunk rest)
  have ok: "\<forall>r\<in>set chunk. \<exists>rows. possible_moves E r = Inr rows" and ne: "chunk \<noteq> []"
    using Cons.prems(2) by auto
  have app: "apply_rows (possible_moves E) chunk
      = Inr (map (\<lambda>r. projr (possible_moves E r)) chunk)"
    using ok by (rule apply_rows_ok)
  have cat: "pd_concat (map (\<lambda>r. projr (possible_moves E r)) chunk)
      = Inr (concat (map (\<lambda>r. projr (possible_moves E r)) chunk))"
    using ne by (simp add: pd_concat_def)
  have step: "convert_chunks E [''Position'', ''Target''] (enumerate n (chunk # rest)) outfile
      = convert_chunks E [''Position'', ''Target''] (enumerate (Suc n) rest)
          (outfile @ map (\<lambda>row. Data [Array (fst row), Float (snd row)])
                       (concat (map (\<lambda>r. projr (possible_moves E r)) chunk)))"
    using Cons.prems(1) by (simp add: app cat to_csv_default)
  also have "\<dots> = ((outfile @ map (\<lambda>row. Data [Array (fst row), Float (snd row)])
                       (concat (map (\<lambda>r. projr (possible_moves E r)) chunk)))
        @ map (\<lambda>row. Data [Array (fst row), Float (snd row)])
            (concat (map (\<lambda>r. projr (possible_moves E r)) (concat rest))), None)"
    using Cons.prems(2) by (intro Cons.IH) auto
  finally show ?case by simp
qed

text \<open>The first chunk replaces the file by the header and its data records.\<close>

lemma convert_chunks_first:
  assumes "\<forall>chunk\<in>set (chunk # rest).
             chunk \<noteq> [] \<and> (\<forall>r\<in>set chunk. \<exists>rows. possible_moves E r = Inr rows)"
  shows "convert_chunks E [''Position'', ''Target''] (enumerate 0 (chunk # rest)) outfile =
           (Header [''Position'', ''Target'']
              # map (\<lambda>row. Data [Array (fst row), Float (snd row)])
                  (concat (map (\<lambda>r. projr (possible_moves E r)) (concat (chunk # rest)))),
            None)"
proof -
  have ok: "\<forall>r\<in>set chunk. \<exists>rows. possible_moves E r = Inr rows" and ne: "chunk \<noteq> []"
    using assms by auto
  have app: "apply_rows (possible_moves E) chunk
      = Inr (map (\<lambda>r. projr (possible_moves E r)) chunk)"
    using ok by (rule apply_rows_ok)
  have cat: "pd_concat (map (\<lambda>r. projr (possible_moves E r)) chunk)
      = Inr (concat (map (\<lambda>r. projr (possible_moves E r)) chunk))"
    using ne by (simp add: pd_concat_def)
  have "convert_chunks E [''Position'', ''Target''] (enumerate 0 (chunk # rest)) outfile
      = convert_chunks E [''Position'', ''Target''] (enumerate (Suc 0) rest)
          (Header [''Position'', ''Target'']
             # map (\<lambda>row. Data [Array (fst row), Float (snd row)])
                 (concat (map (\<lambda>r. projr (possible_moves E r)) chunk)))"
    by (simp add: app cat to_csv_default)
  also have "\<dots> = ((Header [''Position'', ''Target'']
             # map (\<lambda>row. Data [Array (fst row), Float (snd row)])
                 (concat (map (\<lambda>r. projr (possible_moves E r)) chunk)))
        @ map (\<lambda>row. Data [Array (fst row), Float (snd row)])
            (concat (map (\<lambda>r. projr (possible_moves E r)) (concat rest))), None)"
    using assms by (intro convert_chunks_later) auto
  finally show ?thesis by simp
qed

lemma read_csv_chunks_100:
  assumes "rows \<noteq> []"
  shows "concat (read_csv_chunks 100 rows) = rows"
    and "\<forall>chunk\<in>set (read_csv_chunks 100 rows). chunk \<noteq> [] \<and> set chunk \<subseteq> set rows"
    and "read_csv_chunks 100 rows \<noteq> []"
proof -
  let ?k = "(length rows + 100 - 1) div 100"
  have chunks: "read_csv_chunks 100 rows = map (\<lambda>i. take 100 (drop (100 * i) rows)) [0..<?k]"
    using assms by (simp add: read_csv_chunks_def)
  have len: "0 < length rows" using assms by simp
  have "length rows \<le> 100 * ?k" by arith
  then show "concat (read_csv_chunks 100 rows) = rows"
    unfolding chunks concat_blocks_take by simp
  have "100 * i < length rows" if "i < ?k" for i using that by arith
  then have "take 100 (drop (100 * i) rows) \<noteq> []" if "i < ?k" for i using that by simp
  moreover have "set (take 100 (drop (100 * i) rows)) \<subseteq> set rows" for i
    by (meson set_take_subset set_drop_subset subset_trans)
  ultimately show "\<forall>chunk\<in>set (read_csv_chunks 100 rows). chunk \<noteq> [] \<and> set chunk \<subseteq> set rows"
    unfolding chunks by auto
  have "0 < ?k" using len by arith
  then show "read_csv_chunks 100 rows \<noteq> []" unfolding chunks by simp
qed

text \<open>
  Claim C4, as amended. For an input of at least one record, every record of which
  \<open>possible_moves\<close> expands without an exception, and the default columns,
  \<open>make_converted_file\<close> ends without an exception and leaves in the output file, whatever
  it held before, the header record \<open>Position, Target\<close> first and only once, followed by
  data records alone; the number of data records is the sum over the input records of the
  number of legal moves from the record's position.
\<close>

theorem make_converted_file_header_once:
  assumes some: "infile \<noteq> []"
    and ok: "\<forall>r\<in>set infile. \<exists>rows. possible_moves E r = Inr rows"
  shows "\<exists>rows. make_converted_file E infile outfile None =
             (Header [''Position'', ''Target'']
                # map (\<lambda>row. Data [Array (fst row), Float (snd row)]) rows, None)
           \<and> rows = concat (map (\<lambda>r. projr (possible_moves E r)) infile)
           \<and> length rows = (\<Sum>r\<leftarrow>infile. legal_move_count E r)"
proof -
  let ?rows = "concat (map (\<lambda>r. projr (possible_moves E r)) infile)"
  from read_csv_chunks_100(3)[OF some] obtain chunk rest
    where chunks: "read_csv_chunks 100 infile = chunk # rest"
    by (cases "read_csv_chunks 100 infile") auto
  have all: "\<forall>chunk\<in>set (chunk # rest).
          chunk \<noteq> [] \<and> (\<forall>r\<in>set chunk. \<exists>rows. possible_moves E r = Inr rows)"
    using read_csv_chunks_100(2)[OF some] ok unfolding chunks by blast
  have cat: "concat (chunk # rest) = infile"
    using read_csv_chunks_100(1)[OF some] unfolding chunks .
  have "make_converted_file E infile outfile None =
      convert_chunks E [''Position'', ''Target''] (enumerate 0 (chunk # rest)) outfile"
    by (simp add: make_converted_file_def chunks)
  also have "\<dots> = (Header [''Position'', ''Target'']
         # map (\<lambda>row. Data [Array (fst row), Float (snd row)]) ?rows, None)"
    using convert_chunks_first[OF all, of outfile] unfolding cat .
  finally have res: "make_converted_file E infile outfile None =
      (Header [''Position'', ''Target'']
         # map (\<lambda>row. Data [Array (fst row), Float (snd row)]) ?rows, None)" .
  have "length (projr (possible_moves E r)) = legal_move_count E r" if "r \<in> set infile" for r
  proof -
    from ok that obtain rows where "possible_moves E r = Inr rows" by blast
    then show ?thesis using possible_moves_length by fastforce
  qed
  then have "map (\<lambda>r. length (projr (possible_moves E r))) infile
      = map (legal_move_count E) infile"
    by simp
  moreover have "length ?rows = (\<Sum>r\<leftarrow>infile. length (projr (possible_moves E r)))"
    by (simp add: length_concat comp_def)
  ultimately have "length ?rows = (\<Sum>r\<leftarrow>infile. legal_move_count E r)"
    by (simp only:)
  with res show ?thesis by blast
qed


lemma possible_moves_succeeds:
  assumes "Board E (FEN fen_series) = Inr board" and "replies_ok E board"
    and "from_uci E (target_move fen_series) = Inr parsed"
  shows "\<exists>rows. possible_moves E fen_series = Inr rows"
  using possible_moves_rows[OF assms] by (rule exI)

theorem make_converted_file_header_once_witness:
  "replicate 250 \<lparr>FEN = endgame_fen, target_move = ''a7a6''\<rparr> \<noteq> []
   \<and> (\<exists>rows. possible_moves example_engine \<lparr>FEN = endgame_fen, target_move = ''a7a6''\<rparr>
                = Inr rows)
   \<and> (\<exists>rows. make_converted_file example_engine
                (replicate 250 \<lparr>FEN = endgame_fen, target_move = ''a7a6''\<rparr>)
                [Data [], Header [''stale'']] None
              = (Header [''Position'', ''Target'']
                   # map (\<lambda>row. Data [Array (fst row), Float (snd row)]) rows, None)
          \<and> length rows = 750)"
proof -
  let ?r = "\<lparr>FEN = endgame_fen, target_move = ''a7a6''\<rparr>"
  have some: "replicate 250 ?r \<noteq> []" by simp
  have board: "Board example_engine (FEN ?r) = Inr endgame_fen"
    by code_simp
  have replies: "replies_ok example_engine endgame_fen"
    by code_simp
  have parsed: "from_uci example_engine (target_move ?r) = Inr (Move 48 40 None)"
    by code_simp
  have one: "\<exists>rows. possible_moves example_engine ?r = Inr rows"
    using board replies parsed by (rule possible_moves_succeeds)
  then have ok: "\<forall>r\<in>set (replicate 250 ?r). \<exists>rows. possible_moves example_engine r = Inr rows"
    by simp
  have count: "legal_move_count example_engine ?r = 3"
    by code_simp
  have total: "(\<Sum>r\<leftarrow>replicate 250 ?r. legal_move_count example_engine r) = 750"
    by (simp add: count map_replicate sum_list_replicate)
  from make_converted_file_header_once[OF some ok, of "[Data [], Header [''stale'']]"]
  obtain rows where "make_converted_file example_engine (replicate 250 ?r)
        [Data [], Header [''stale'']] None
      = (Header [''Position'', ''Target'']
           # map (\<lambda>row. Data [Array (fst row), Float (snd row)]) rows, None)"
    and "length rows = (\<Sum>r\<leftarrow>replicate 250 ?r. legal_move_count example_engine r)"
    by blast
  then have "make_converted_file example_engine (replicate 250 ?r)
        [Data [], Header [''stale'']] None
      = (Header [''Position'', ''Target'']
           # map (\<lambda>row. Data [Array (fst row), Float (snd row)]) rows, None)
      \<and> length rows = 750"
    unfolding total by simp
  then have "\<exists>rows. make_converted_file example_engine (replicate 250 ?r)
        [Data [], Header [''stale'']] None
      = (Header [''Position'', ''Target'']
           # map (\<lambda>row. Data [Array (fst row), Float (snd row)]) rows, None)
      \<and> length rows = 750"
    by (rule exI)
  with some one show ?thesis by (intro conjI)
qed

text \<open>
  Claim C4 as stated fails for an input of no records: the one chunk read has no rows,
  \<^verbatim>\<open>pd.concat\<close> raises on its empty list of frames, and the output is never written, so
  it holds no header.
\<close>

theorem make_converted_file_no_records:
  "make_converted_file example_engine [] [] None = ([], Some NoObjectsToConcatenate)
   \<and> Header [''Position'', ''Target'']
        \<notin> set (fst (make_converted_file example_engine [] [] None))"
  by (simp add: make_converted_file_def read_csv_chunks_def pd_concat_def enumerate_eq_zip)

section \<open>The end-to-end example\<close>

lemma fen_to_array_slot:
  assumes tok: "split_ws s = placement # rest"
    and len: "length (board_string_of placement) = 64"
    and sym: "set (board_string_of placement) \<subseteq> set ''0PNBRQKpnbrqk''"
    and i: "i < 64" and k: "piece_dict (board_string_of placement ! i) = Some k"
  shows "\<exists>position. fen_to_array s = Inr position \<and> position ! (13 * i + k) = 1"
proof -
  have "well_formed_placement s" using tok len sym by (simp add: well_formed_placement_def)
  then obtain position where p: "fen_to_array s = Inr position"
    using well_formed_placement_encodes by blast
  then have sq: "set_squares [0..<64] (board_string_of placement) (replicate 832 0) = Inr position"
    using fen_to_array_placement[OF tok] len by simp
  from encode_slots[OF sq len i] k have "position ! (13 * i + k) = 1"
    using piece_dict_lt[OF k] by auto
  with p show ?thesis by blast
qed

text \<open>
  Claim C8. The example of the spec: the starting position with the moves
  \<^verbatim>\<open>e2e4 e7e5\<close>. The facts of chess come from the engine: it parses the starting FEN,
  pushing e2e4 gives the board whose FEN is \<open>fen_after_e4\<close>, that position has 20 legal
  moves, each listed once and pushable, and e7e5 parses to one of them. Then
  \<open>puzzle_cleaning\<close> returns \<open>fen_after_e4\<close> with the target e7e5; the encoding of
  \<open>fen_after_e4\<close> has a white pawn on e4 (square 36, class 1) and an empty e2 (square 52,
  class 0); and \<open>possible_moves\<close> returns 20 rows, the row of e7e5 labelled 1 and the
  other 19 labelled 0.
\<close>

theorem e2e4_e7e5_example:
  assumes start: "Board E starting_fen = Inr start"
    and push: "push_uci E start ''e2e4'' = Inr advanced"
    and fen: "board_fen E advanced = fen_after_e4"
    and board: "Board E fen_after_e4 = Inr board"
    and twenty: "length (legal_moves E board) = 20"
    and ok: "replies_ok E board"
    and parsed: "from_uci E ''e7e5'' = Inr reply"
    and legal: "reply \<in> set (legal_moves E board)"
  shows "puzzle_cleaning E [\<lparr>FEN = starting_fen, Moves = ''e2e4 e7e5''\<rparr>]
           = Inr [\<lparr>FEN = fen_after_e4, target_move = ''e7e5''\<rparr>]
       \<and> (\<exists>position. fen_to_array fen_after_e4 = Inr position
             \<and> position ! (13 * 36 + 1) = 1 \<and> position ! (13 * 52 + 0) = 1)
       \<and> (\<exists>rows. possible_moves E \<lparr>FEN = fen_after_e4, target_move = ''e7e5''\<rparr> = Inr rows
             \<and> length rows = 20
             \<and> map snd rows = map (\<lambda>move. if move = reply then 1 else 0) (legal_moves E board)
             \<and> length (filter (\<lambda>label. label = 1) (map snd rows)) = 1
             \<and> length (filter (\<lambda>label. label = 0) (map snd rows)) = 19)"
proof (intro conjI)
  have tokens: "split_ws ''e2e4 e7e5'' = [''e2e4'', ''e7e5'']" by code_simp
  show "puzzle_cleaning E [\<lparr>FEN = starting_fen, Moves = ''e2e4 e7e5''\<rparr>]
           = Inr [\<lparr>FEN = fen_after_e4, target_move = ''e7e5''\<rparr>]"
    using start push fen by (simp add: single_move_def second_move_def tokens)
next
  have tok: "split_ws fen_after_e4
      = ''rnbqkbnr/pppppppp/8/8/4P3/8/PPPP1PPP/RNBQKBNR'' # [''b'', ''KQkq'', ''-'', ''0'', ''1'']"
    by code_simp
  have bs: "board_string_of ''rnbqkbnr/pppppppp/8/8/4P3/8/PPPP1PPP/RNBQKBNR''
      = ''rnbqkbnrpppppppp00000000000000000000P00000000000PPPP0PPPRNBQKBNR''"
    by code_simp
  have len: "length (board_string_of ''rnbqkbnr/pppppppp/8/8/4P3/8/PPPP1PPP/RNBQKBNR'') = 64"
    unfolding bs by simp
  have sym: "set (board_string_of ''rnbqkbnr/pppppppp/8/8/4P3/8/PPPP1PPP/RNBQKBNR'')
      \<subseteq> set ''0PNBRQKpnbrqk''"
    unfolding bs by simp
  have e4: "piece_dict (board_string_of ''rnbqkbnr/pppppppp/8/8/4P3/8/PPPP1PPP/RNBQKBNR'' ! 36)
      = Some 1"
    unfolding bs by (simp add: piece_dict_def)
  have e2: "piece_dict (board_string_of ''rnbqkbnr/pppppppp/8/8/4P3/8/PPPP1PPP/RNBQKBNR'' ! 52)
      = Some 0"
    unfolding bs by (simp add: piece_dict_def)
  from fen_to_array_slot[OF tok len sym _ e4] obtain position
    where p: "fen_to_array fen_after_e4 = Inr position" and p4: "position ! (13 * 36 + 1) = 1"
    by auto
  from fen_to_array_slot[OF tok len sym _ e2] p have p2: "position ! (13 * 52 + 0) = 1"
    by auto
  from p p4 p2 show "\<exists>position. fen_to_array fen_after_e4 = Inr position
             \<and> position ! (13 * 36 + 1) = 1 \<and> position ! (13 * 52 + 0) = 1"
    by blast
next
  let ?series = "\<lparr>FEN = fen_after_e4, target_move = ''e7e5''\<rparr>"
  let ?row = "\<lambda>move. (projr (fen_to_array (board_fen E (projr (push_uci E board (uci E move))))),
                       if move = reply then 1 else (0::real))"
  have b: "Board E (FEN ?series) = Inr board" using board by simp
  have t: "from_uci E (target_move ?series) = Inr reply" using parsed by simp
  have res: "possible_moves E ?series = Inr (map ?row (legal_moves E board))"
    using b ok t by (rule possible_moves_rows)
  have dist: "distinct (legal_moves E board)" using ok by (simp add: replies_ok_def)
  have labels: "map snd (map ?row (legal_moves E board))
      = map (\<lambda>move. if move = reply then 1 else 0) (legal_moves E board)"
    by simp
  have pos: "length (filter (\<lambda>label. label = 1) (map snd (map ?row (legal_moves E board)))) = 1"
    unfolding labels using dist legal by (rule one_positive_label(1))
  have neg: "length (filter (\<lambda>label. label = 0) (map snd (map ?row (legal_moves E board)))) = 19"
    unfolding labels using one_positive_label(2)[OF dist legal] twenty by simp
  show "\<exists>rows. possible_moves E ?series = Inr rows
             \<and> length rows = 20
             \<and> map snd rows = map (\<lambda>move. if move = reply then 1 else 0) (legal_moves E board)
             \<and> length (filter (\<lambda>label. label = 1) (map snd rows)) = 1
             \<and> length (filter (\<lambda>label. label = 0) (map snd rows)) = 19"
    using res labels pos neg twenty by (intro exI[of _ "map ?row (legal_moves E board)"]) simp
qed

theorem e2e4_e7e5_example_witness:
  "Board example_engine starting_fen = Inr starting_fen
   \<and> push_uci example_engine starting_fen ''e2e4'' = Inr fen_after_e4
   \<and> board_fen example_engine fen_after_e4 = fen_after_e4
   \<and> Board example_engine fen_after_e4 = Inr fen_after_e4
   \<and> length (legal_moves example_engine fen_after_e4) = 20
   \<and> replies_ok example_engine fen_after_e4
   \<and> from_uci example_engine ''e7e5'' = Inr (Move 52 36 None)
   \<and> Move 52 36 None \<in> set (legal_moves example_engine fen_after_e4)
   \<and> puzzle_cleaning example_engine [\<lparr>FEN = starting_fen, Moves = ''e2e4 e7e5''\<rparr>]
       = Inr [\<lparr>FEN = fen_after_e4, target_move = ''e7e5''\<rparr>]
   \<and> (\<exists>rows. possible_moves example_engine \<lparr>FEN = fen_after_e4, target_move = ''e7e5''\<rparr>
                = Inr rows
          \<and> length rows = 20
          \<and> map snd rows = [0, 0, 0, 0, 0, 0, 0, 0, 0, 0, 0, 0, 0, 0, 0, 1, 0, 0, 0, 0]
          \<and> length (filter (\<lambda>label. label = 1) (map snd rows)) = 1
          \<and> length (filter (\<lambda>label. label = 0) (map snd rows)) = 19)"
proof -
  have start: "Board example_engine starting_fen = Inr starting_fen"
    by code_simp
  have push: "push_uci example_engine starting_fen ''e2e4'' = Inr fen_after_e4"
    by code_simp
  have fen: "board_fen example_engine fen_after_e4 = fen_after_e4"
    by (simp add: example_engine_def)
  have board: "Board example_engine fen_after_e4 = Inr fen_after_e4"
    by code_simp
  have moves: "legal_moves example_engine fen_after_e4 =
      [Move 62 47 None, Move 62 45 None, Move 57 42 None, Move 57 40 None,
       Move 55 47 None, Move 54 46 None, Move 53 45 None, Move 52 44 None,
       Move 51 43 None, Move 50 42 None, Move 49 41 None, Move 48 40 None,
       Move 55 39 None, Move 54 38 None, Move 53 37 None, Move 52 36 None,
       Move 51 35 None, Move 50 34 None, Move 49 33 None, Move 48 32 None]"
    by code_simp
  have twenty: "length (legal_moves example_engine fen_after_e4) = 20"
    unfolding moves by simp
  have ok: "replies_ok example_engine fen_after_e4"
    by code_simp
  have parsed: "from_uci example_engine ''e7e5'' = Inr (Move 52 36 None)"
    by code_simp
  have legal: "Move 52 36 None \<in> set (legal_moves example_engine fen_after_e4)"
    unfolding moves by simp
  note ex = e2e4_e7e5_example[OF start push fen board twenty ok parsed legal]
  from ex have cleaned: "puzzle_cleaning example_engine
      [\<lparr>FEN = starting_fen, Moves = ''e2e4 e7e5''\<rparr>]
       = Inr [\<lparr>FEN = fen_after_e4, target_move = ''e7e5''\<rparr>]"
    by (rule conjunct1)
  from ex obtain rows
    where "possible_moves example_engine \<lparr>FEN = fen_after_e4, target_move = ''e7e5''\<rparr> = Inr rows"
      and "length rows = 20"
      and "map snd rows = map (\<lambda>move. if move = Move 52 36 None then 1 else 0)
             (legal_moves example_engine fen_after_e4)"
      and "length (filter (\<lambda>label. label = 1) (map snd rows)) = 1"
      and "length (filter (\<lambda>label. label = 0) (map snd rows)) = 19"
    by blast
  then have "possible_moves example_engine \<lparr>FEN = fen_after_e4, target_move = ''e7e5''\<rparr>
                = Inr rows
          \<and> length rows = 20
          \<and> map snd rows = [0, 0, 0, 0, 0, 0, 0, 0, 0, 0, 0, 0, 0, 0, 0, 1, 0, 0, 0, 0]
          \<and> length (filter (\<lambda>label. label = 1) (map snd rows)) = 1
          \<and> length (filter (\<lambda>label. label = 0) (map snd rows)) = 19"
    unfolding moves by simp
  then have "\<exists>rows. possible_moves example_engine \<lparr>FEN = fen_after_e4, target_move = ''e7e5''\<rparr>
                = Inr rows
          \<and> length rows = 20
          \<and> map snd rows = [0, 0, 0, 0, 0, 0, 0, 0, 0, 0, 0, 0, 0, 0, 0, 1, 0, 0, 0, 0]
          \<and> length (filter (\<lambda>label. label = 1) (map snd rows)) = 1
          \<and> length (filter (\<lambda>label. label = 0) (map snd rows)) = 19"
    by (rule exI)
  with start push fen board twenty ok parsed legal cleaned show ?thesis by (intro conjI)
qed


section \<open>Properties of the puzzle advancer\<close>











end
